theory Spec2Isabelle
  imports Main "HOL-Library.Extended_Nat"
begin

section \<open>Tokens (Tokenizer.ts)\<close>

text \<open>
  The enum \<open>TokenType\<close>. Its members are the strings of \<open>show_TokenType\<close>; the member
  \<open>Let\<close> is written \<open>LetT\<close> here, since \<open>Let\<close> is a constant of HOL.
\<close>

datatype TokenType =
  LetT | Assign | Function | Identifier | LeftParen | RightParen | LeftCurly | RightCurly

fun show_TokenType :: "TokenType \<Rightarrow> string" where
  "show_TokenType LetT = ''Let''"
| "show_TokenType Assign = ''Assign''"
| "show_TokenType Function = ''Function''"
| "show_TokenType Identifier = ''Identifier''"
| "show_TokenType LeftParen = ''LeftParen''"
| "show_TokenType RightParen = ''RightParen''"
| "show_TokenType LeftCurly = ''LeftCurly''"
| "show_TokenType RightCurly = ''RightCurly''"

text \<open>
  The type \<open>Token\<close>: \<open>type\<close>, the optional \<open>value\<close>, \<open>start\<close>, \<open>end\<close> and the optional
  \<open>raw\<close>. An absent optional field is \<open>None\<close>. Offsets are indices into the source,
  so they are natural numbers.
\<close>

record Token =
  tok_type :: TokenType
  tok_value :: "string option"
  tok_start :: nat
  tok_end :: nat
  tok_raw :: "string option"

text \<open>
  What is thrown: \<open>new Error(message)\<close> by the code itself, and the \<open>TypeError\<close> of the
  runtime when a property of \<open>undefined\<close> is read.
\<close>

datatype error = Error string | TypeError

text \<open>
  What \<open>tokenize\<close> pushes on its output array. The generator table is declared to
  return a \<open>Token\<close>, but it is indexed with the scanned word, and the word may name a
  member that the table inherits from \<open>Object.prototype\<close>; calling that member gives a
  value that is no token (see \<open>Object_prototype\<close> below).
\<close>

datatype item =
  Tok Token
| NumberObject nat
| StringValue string
| BooleanValue bool
| GeneratorTable

subsection \<open>\<open>TOKENS_GENERATOR\<close>\<close>

text \<open>
  A generator is called with \<open>start\<close> and, for \<open>identifier\<close>, with \<open>value\<close>; an argument
  that the caller leaves out is \<open>undefined\<close>, here \<open>None\<close>. Only \<open>identifier\<close> reads its
  second argument: \<open>value.length\<close> throws a \<open>TypeError\<close> when \<open>value\<close> is \<open>undefined\<close>.
\<close>

type_synonym generator = "nat \<Rightarrow> string option \<Rightarrow> error + Token"

definition gen_let :: generator where
  "gen_let start v =
     Inr \<lparr>tok_type = LetT, tok_value = Some ''let'', tok_start = start,
          tok_end = start + 3, tok_raw = None\<rparr>"

definition gen_assign :: generator where
  "gen_assign start v =
     Inr \<lparr>tok_type = Assign, tok_value = Some ''='', tok_start = start,
          tok_end = start + 1, tok_raw = None\<rparr>"

definition gen_function :: generator where
  "gen_function start v =
     Inr \<lparr>tok_type = Function, tok_value = Some ''function'', tok_start = start,
          tok_end = start + 8, tok_raw = None\<rparr>"

definition gen_leftParen :: generator where
  "gen_leftParen start v =
     Inr \<lparr>tok_type = LeftParen, tok_value = Some ''('', tok_start = start,
          tok_end = start + 1, tok_raw = None\<rparr>"

definition gen_rightParen :: generator where
  "gen_rightParen start v =
     Inr \<lparr>tok_type = RightParen, tok_value = Some '')'', tok_start = start,
          tok_end = start + 1, tok_raw = None\<rparr>"

definition gen_leftCurly :: generator where
  "gen_leftCurly start v =
     Inr \<lparr>tok_type = LeftCurly, tok_value = Some ''{'', tok_start = start,
          tok_end = start + 1, tok_raw = None\<rparr>"

definition gen_rightCurly :: generator where
  "gen_rightCurly start v =
     Inr \<lparr>tok_type = RightCurly, tok_value = Some ''}'', tok_start = start,
          tok_end = start + 1, tok_raw = None\<rparr>"

definition gen_identifier :: generator where
  "gen_identifier start v =
     (case v of
        None \<Rightarrow> Inl TypeError
      | Some val \<Rightarrow>
          Inr \<lparr>tok_type = Identifier, tok_value = Some val, tok_start = start,
               tok_end = start + length val, tok_raw = None\<rparr>)"

text \<open>The table's own keys, in the order of the object literal.\<close>

definition TOKENS_GENERATOR :: "(string \<times> generator) list" where
  "TOKENS_GENERATOR =
     [(''let'', gen_let), (''assign'', gen_assign), (''function'', gen_function),
      (''leftParen'', gen_leftParen), (''rightParen'', gen_rightParen),
      (''leftCurly'', gen_leftCurly), (''rightCurly'', gen_rightCurly),
      (''identifier'', gen_identifier)]"

text \<open>
  The table is an object literal, so its prototype is \<open>Object.prototype\<close>, and both
  \<open>key in TOKENS_GENERATOR\<close> and \<open>TOKENS_GENERATOR[key]\<close> find the members inherited from
  it. These are the inherited members whose names are made of letters only, each with what
  it returns when called as \<open>TOKENS_GENERATOR[key](start)\<close>: \<open>constructor\<close> is \<open>Object\<close>,
  which wraps the number; \<open>toString\<close> and \<open>toLocaleString\<close> give \<open>[object Object]\<close>;
  \<open>valueOf\<close> gives the table itself; the table has no own property named by a number and
  a number is no object, so the three tests give \<open>false\<close>.
\<close>

definition Object_prototype :: "(string \<times> (nat \<Rightarrow> item)) list" where
  "Object_prototype =
     [(''constructor'', \<lambda>start. NumberObject start),
      (''hasOwnProperty'', \<lambda>start. BooleanValue False),
      (''isPrototypeOf'', \<lambda>start. BooleanValue False),
      (''propertyIsEnumerable'', \<lambda>start. BooleanValue False),
      (''toLocaleString'', \<lambda>start. StringValue ''[object Object]''),
      (''toString'', \<lambda>start. StringValue ''[object Object]''),
      (''valueOf'', \<lambda>start. GeneratorTable)]"

text \<open>\<open>key in TOKENS_GENERATOR\<close>: own keys and inherited ones.\<close>

definition in_TOKENS_GENERATOR :: "string \<Rightarrow> bool" where
  "in_TOKENS_GENERATOR key =
     (case map_of TOKENS_GENERATOR key of
        Some g \<Rightarrow> True
      | None \<Rightarrow> (case map_of Object_prototype key of Some m \<Rightarrow> True | None \<Rightarrow> False))"

text \<open>
  \<open>TOKENS_GENERATOR[key](start)\<close> for a key that is in the table: an own generator shadows
  an inherited member. (For a key that is not in the table the source does not make this
  call; there the lookup is \<open>undefined\<close> and calling it throws a \<open>TypeError\<close>.)
\<close>

definition call_TOKENS_GENERATOR :: "string \<Rightarrow> nat \<Rightarrow> error + item" where
  "call_TOKENS_GENERATOR key start =
     (case map_of TOKENS_GENERATOR key of
        Some g \<Rightarrow> (case g start None of Inl e \<Rightarrow> Inl e | Inr t \<Rightarrow> Inr (Tok t))
      | None \<Rightarrow>
          (case map_of Object_prototype key of
             Some m \<Rightarrow> Inr (m start)
           | None \<Rightarrow> Inl TypeError))"

text \<open>\<open>KNOWN_SINGLE_CHAR_TOKENS\<close> and \<open>isSingleCharToken\<close>.\<close>

definition KNOWN_SINGLE_CHAR_TOKENS :: "(char \<times> generator) list" where
  "KNOWN_SINGLE_CHAR_TOKENS =
     [(CHR ''('', gen_leftParen), (CHR '')'', gen_rightParen),
      (CHR ''{'', gen_leftCurly), (CHR ''}'', gen_rightCurly),
      (CHR ''='', gen_assign)]"

definition isSingleCharToken :: "char \<Rightarrow> bool" where
  "isSingleCharToken c = (case map_of KNOWN_SINGLE_CHAR_TOKENS c of Some g \<Rightarrow> True | None \<Rightarrow> False)"

text \<open>
  Modelled from the spec: \<open>isAlpha\<close> is imported from \<open>./utils\<close>, which is not among the
  sources. The spec calls the characters it accepts alphabetic; they are taken to be the
  ASCII letters. Past the end of the source the scanner reads \<open>undefined\<close>, which is no
  alphabetic character: \<open>isAlpha_at\<close> is \<open>isAlpha(this.#source[i])\<close>.
\<close>

definition isAlpha :: "char \<Rightarrow> bool" where
  "isAlpha c =
     ((97 \<le> (of_char c :: nat) \<and> (of_char c :: nat) \<le> 122) \<or>
      (65 \<le> (of_char c :: nat) \<and> (of_char c :: nat) \<le> 90))"

definition isAlpha_at :: "string \<Rightarrow> nat \<Rightarrow> bool" where
  "isAlpha_at src i = (if i < length src then isAlpha (src ! i) else False)"

subsection \<open>The class \<open>Tokenizer\<close>\<close>

record Tokenizer =
  tk_tokens :: "item list"
  tk_currentIndex :: nat
  tk_source :: string

text \<open>The constructor.\<close>

definition new_Tokenizer :: "string \<Rightarrow> Tokenizer" where
  "new_Tokenizer input = \<lparr>tk_tokens = [], tk_currentIndex = 0, tk_source = input\<rparr>"

text \<open>
  The inner loop of \<open>tokenize\<close> (lines 126 to 130): it appends the current character to
  \<open>identifier\<close> and moves on while the current character is alphabetic. It returns the
  word and the index it stopped at.
\<close>

function scanAlpha :: "string \<Rightarrow> nat \<Rightarrow> string \<Rightarrow> string \<times> nat" where
  "scanAlpha src i identifier =
     (if isAlpha_at src i then scanAlpha src (i + 1) (identifier @ [src ! i])
      else (identifier, i))"
  by pat_completeness auto
termination
  by (relation "measure (\<lambda>(src, i, identifier). length src - i)")
     (auto simp: isAlpha_at_def split: if_splits)

declare scanAlpha.simps [simp del]

text \<open>
  The outer loop of \<open>tokenize\<close>. A run that does not return is \<open>None\<close>; a run that throws
  is \<open>Some (Inl e)\<close>; a run that returns the token array is \<open>Some (Inr tokens)\<close>. The last
  branch is the fall-through of the loop body: no test matched, nothing was changed, and
  the loop condition is evaluated again in the same state.
\<close>

partial_function (option) tokenize_loop :: "Tokenizer \<Rightarrow> (error + item list) option" where
  "tokenize_loop s =
     (if tk_currentIndex s < length (tk_source s) then
        (if tk_source s ! tk_currentIndex s = CHR '' '' then
           tokenize_loop (s\<lparr>tk_currentIndex := tk_currentIndex s + 1\<rparr>)
         else if isAlpha (tk_source s ! tk_currentIndex s) then
           (case scanAlpha (tk_source s) (tk_currentIndex s) [] of
              (identifier, i) \<Rightarrow>
                (case (if in_TOKENS_GENERATOR identifier
                       then call_TOKENS_GENERATOR identifier (tk_currentIndex s)
                       else map_sum id Tok
                              (gen_identifier (tk_currentIndex s) (Some identifier))) of
                   Inl e \<Rightarrow> Some (Inl e)
                 | Inr token \<Rightarrow>
                     tokenize_loop
                       (s\<lparr>tk_currentIndex := i, tk_tokens := tk_tokens s @ [token]\<rparr>)))
         else if isSingleCharToken (tk_source s ! tk_currentIndex s) then
           (case map_of KNOWN_SINGLE_CHAR_TOKENS (tk_source s ! tk_currentIndex s) of
              None \<Rightarrow> Some (Inl TypeError)
            | Some g \<Rightarrow>
                (case g (tk_currentIndex s) None of
                   Inl e \<Rightarrow> Some (Inl e)
                 | Inr token \<Rightarrow>
                     tokenize_loop
                       (s\<lparr>tk_tokens := tk_tokens s @ [Tok token],
                          tk_currentIndex := tk_currentIndex s + 1\<rparr>)))
         else tokenize_loop s)
      else Some (Inr (tk_tokens s)))"

declare tokenize_loop.simps [code]

text \<open>\<open>new Tokenizer(input).tokenize()\<close>.\<close>

definition tokenize :: "string \<Rightarrow> (error + item list) option" where
  "tokenize input = tokenize_loop (new_Tokenizer input)"


section \<open>The syntax tree (the interfaces of the parser's file)\<close>

text \<open>
  Every node has \<open>type\<close>, \<open>start\<close> and \<open>end\<close>. The \<open>type\<close> tag is the constructor. An
  \<open>end\<close> is an extended natural number, because the parser initialises the \<open>end\<close> of a
  \<open>Program\<close> and of a \<open>BlockStatement\<close> with \<open>Infinity\<close>, here \<open>\<infinity>\<close>. The only \<open>Statement\<close>
  the parser builds is a \<open>VariableDeclaration\<close>, and the only \<open>Expression\<close> a
  \<open>FunctionExpression\<close>. An identifier's \<open>name\<close> and a declaration's \<open>kind\<close> are copied from
  the optional \<open>value\<close> of a token, so they are optional too. The constructor of an
  \<open>Identifier\<close> node is \<open>IdentifierNode\<close>, since \<open>Identifier\<close> is the token type.
\<close>

datatype Identifier = IdentifierNode (id_name: "string option") (id_start: nat) (id_end: enat)

datatype Statement =
  VariableDeclaration (vd_kind: "string option") (vd_declarations: "VariableDeclarator list")
    (vd_start: nat) (vd_end: enat)
and VariableDeclarator =
  VariableDeclarator (dr_id: Identifier) (dr_init: FunctionExpression) (dr_start: nat) (dr_end: enat)
and FunctionExpression =
  FunctionExpression (fe_id: "Identifier option") (fe_params: "Identifier list")
    (fe_body: BlockStatement) (fe_start: nat) (fe_end: enat)
and BlockStatement =
  BlockStatement (bs_body: "Statement list") (bs_start: nat) (bs_end: enat)

record Program =
  prog_body :: "Statement list"
  prog_start :: nat
  prog_end :: enat

section \<open>The class \<open>Parser\<close>\<close>

text \<open>
  The private fields. Every method takes the parser's state and returns its result, or
  what it throws, together with the state it leaves behind.
\<close>

record Parser =
  tokens :: "Token list"
  currentIndex :: nat

text \<open>The constructor copies the array it is given.\<close>

definition new_Parser :: "Token list \<Rightarrow> Parser" where
  "new_Parser toks = \<lparr>tokens = toks, currentIndex = 0\<rparr>"

text \<open>
  The getters. Reading the array at an index that is not in it gives \<open>undefined\<close>, here
  \<open>None\<close>; for \<open>#previousToken\<close> this includes the index \<open>-1\<close>.
\<close>

definition isEnd :: "Parser \<Rightarrow> bool" where
  "isEnd s = (currentIndex s \<ge> length (tokens s))"

definition currentToken :: "Parser \<Rightarrow> Token option" where
  "currentToken s =
     (if currentIndex s < length (tokens s) then Some (tokens s ! currentIndex s) else None)"

definition previousToken :: "Parser \<Rightarrow> Token option" where
  "previousToken s =
     (if 1 \<le> currentIndex s \<and> currentIndex s - 1 < length (tokens s)
      then Some (tokens s ! (currentIndex s - 1)) else None)"

text \<open>
  The parameter \<open>type: TokenType | TokenType[]\<close>, and what a template literal makes of
  it: the enum member's string, or \<open>join(',')\<close> of an array (which is also what \<open>${type}\<close>
  gives for an array).
\<close>

datatype TypeArg = One TokenType | Many "TokenType list"

fun join :: "string list \<Rightarrow> string \<Rightarrow> string" where
  "join [] sep = []"
| "join [x] sep = x"
| "join (x # y # ys) sep = x @ sep @ join (y # ys) sep"

fun show_TypeArg :: "TypeArg \<Rightarrow> string" where
  "show_TypeArg (One t) = show_TokenType t"
| "show_TypeArg (Many ts) = join (map show_TokenType ts) '',''"

definition checkCurrentTokenType :: "TypeArg \<Rightarrow> Parser \<Rightarrow> bool" where
  "checkCurrentTokenType type s =
     (if isEnd s then False
      else (case type of
              Many ts \<Rightarrow> List.member ts (tok_type (tokens s ! currentIndex s))
            | One t \<Rightarrow> tok_type (tokens s ! currentIndex s) = t))"

text \<open>
  \<open>#goNext\<close>. Reading \<open>type\<close> of a current token that is \<open>undefined\<close> throws a
  \<open>TypeError\<close>. The second test, \<open>currentType !== type\<close>, compares a string with the
  argument: they are the same only when the argument is that one string, so the test also
  holds for every array.
\<close>

definition goNext :: "TypeArg \<Rightarrow> Parser \<Rightarrow> (error + Token) \<times> Parser" where
  "goNext type s =
     (case currentToken s of
        None \<Rightarrow> (Inl TypeError, s)
      | Some tok \<Rightarrow>
          (if (case type of Many ts \<Rightarrow> \<not> List.member ts (tok_type tok) | One t \<Rightarrow> False)
           then (Inl (Error (''Expect '' @ show_TypeArg type @ '', but got ''
                               @ show_TokenType (tok_type tok))), s)
           else if One (tok_type tok) \<noteq> type
           then (Inl (Error (''Expect '' @ show_TypeArg type @ '', but got ''
                               @ show_TokenType (tok_type tok))), s)
           else (Inr tok, s\<lparr>currentIndex := currentIndex s + 1\<rparr>)))"

text \<open>\<open>#parseIdentifier\<close>: \<open>token.value\<close> throws a \<open>TypeError\<close> when there is no current token.\<close>

definition parseIdentifier :: "Parser \<Rightarrow> (error + Identifier) \<times> Parser" where
  "parseIdentifier s =
     (case currentToken s of
        None \<Rightarrow> (Inl TypeError, s)
      | Some token \<Rightarrow>
          (case goNext (One Identifier) s of
             (Inl e, s') \<Rightarrow> (Inl e, s')
           | (Inr t, s') \<Rightarrow>
               (Inr (IdentifierNode (tok_value token) (tok_start token) (enat (tok_end token))), s')))"

lemma goNext_Inr:
  "goNext type s = (Inr t, s') \<Longrightarrow>
     currentIndex s < length (tokens s) \<and> s' = s\<lparr>currentIndex := currentIndex s + 1\<rparr>
     \<and> t = tokens s ! currentIndex s \<and> type = One (tok_type t)"
  by (auto simp: goNext_def currentToken_def split: option.splits if_splits)

lemma goNext_Inl: "goNext type s = (Inl e, s') \<Longrightarrow> s' = s"
  by (auto simp: goNext_def currentToken_def split: option.splits if_splits)

lemma parseIdentifier_Inr:
  "parseIdentifier s = (Inr n, s') \<Longrightarrow>
     currentIndex s < length (tokens s) \<and> s' = s\<lparr>currentIndex := currentIndex s + 1\<rparr>"
  by (auto simp: parseIdentifier_def currentToken_def split: option.splits sum.splits prod.splits dest!: goNext_Inr)

text \<open>\<open>#parseParam\<close>; \<open>parseParamLoop\<close> is its \<open>while\<close> loop.\<close>

function parseParamLoop :: "Identifier list \<Rightarrow> Parser \<Rightarrow> (error + Identifier list) \<times> Parser" where
  "parseParamLoop params s =
     (if checkCurrentTokenType (One RightParen) s then (Inr params, s)
      else (case parseIdentifier s of
              (Inl e, s') \<Rightarrow> (Inl e, s')
            | (Inr n, s') \<Rightarrow> parseParamLoop (params @ [n]) s'))"
  by pat_completeness auto
termination
  apply (relation "measure (\<lambda>(params, s). length (tokens s) - currentIndex s)")
   apply simp
  apply (auto dest!: parseIdentifier_Inr [OF sym])
  done

declare parseParamLoop.simps [simp del]

definition parseParam :: "Parser \<Rightarrow> (error + Identifier list) \<times> Parser" where
  "parseParam s =
     (case goNext (One LeftParen) s of
        (Inl e, s1) \<Rightarrow> (Inl e, s1)
      | (Inr t, s1) \<Rightarrow>
          (case parseParamLoop [] s1 of
             (Inl e, s2) \<Rightarrow> (Inl e, s2)
           | (Inr params, s2) \<Rightarrow>
               (case goNext (One RightParen) s2 of
                  (Inl e, s3) \<Rightarrow> (Inl e, s3)
                | (Inr t', s3) \<Rightarrow> (Inr params, s3))))"


text \<open>
  The mutually recursive methods. \<open>parseBlockLoop\<close> is the \<open>while\<close> loop of
  \<open>#parseBlockStatement\<close>. Destructuring \<open>start\<close> out of a current token that is
  \<open>undefined\<close> throws a \<open>TypeError\<close>, and so does reading its \<open>end\<close>, its \<open>value\<close> or its
  \<open>type\<close>. In \<open>#parseVariableDeclaration\<close>, \<open>init\<close> is an object, so \<open>init ? init.end : id.end\<close>
  is \<open>init.end\<close>.
\<close>

function parseBlockLoop :: "Statement list \<Rightarrow> Parser \<Rightarrow> (error + Statement list) \<times> Parser"
  and parseBlockStatement :: "Parser \<Rightarrow> (error + BlockStatement) \<times> Parser"
  and parseFunctionExpression :: "Parser \<Rightarrow> (error + FunctionExpression) \<times> Parser"
  and parseVariableDeclaration :: "Parser \<Rightarrow> (error + Statement) \<times> Parser"
  and parseStatement :: "Parser \<Rightarrow> (error + Statement) \<times> Parser"
where
  "parseBlockLoop body s =
     (if checkCurrentTokenType (One RightCurly) s then (Inr body, s)
      else (case parseStatement s of
              (Inl e, s') \<Rightarrow> (Inl e, s')
            | (Inr node, s') \<Rightarrow> parseBlockLoop (body @ [node]) s'))"
| "parseBlockStatement s =
     (case currentToken s of
        None \<Rightarrow> (Inl TypeError, s)
      | Some tok \<Rightarrow>
          (case goNext (One LeftCurly) s of
             (Inl e, s1) \<Rightarrow> (Inl e, s1)
           | (Inr t, s1) \<Rightarrow>
               (case parseBlockLoop [] s1 of
                  (Inl e, s2) \<Rightarrow> (Inl e, s2)
                | (Inr body, s2) \<Rightarrow>
                    (case currentToken s2 of
                       None \<Rightarrow> (Inl TypeError, s2)
                     | Some cur \<Rightarrow>
                         (case goNext (One RightCurly) s2 of
                            (Inl e, s3) \<Rightarrow> (Inl e, s3)
                          | (Inr t', s3) \<Rightarrow>
                              (Inr (BlockStatement body (tok_start tok) (enat (tok_end cur))),
                               s3))))))"
| "parseFunctionExpression s =
     (case currentToken s of
        None \<Rightarrow> (Inl TypeError, s)
      | Some tok \<Rightarrow>
          (case goNext (One Function) s of
             (Inl e, s1) \<Rightarrow> (Inl e, s1)
           | (Inr t, s1) \<Rightarrow>
               (case (if checkCurrentTokenType (One Identifier) s1
                      then (case parseIdentifier s1 of
                              (Inl e, s') \<Rightarrow> (Inl e, s')
                            | (Inr n, s') \<Rightarrow> (Inr (Some n), s'))
                      else (Inr None, s1)) of
                  (Inl e, s2) \<Rightarrow> (Inl e, s2)
                | (Inr ident, s2) \<Rightarrow>
                    (case parseParam s2 of
                       (Inl e, s3) \<Rightarrow> (Inl e, s3)
                     | (Inr params, s3) \<Rightarrow>
                         (case parseBlockStatement s3 of
                            (Inl e, s4) \<Rightarrow> (Inl e, s4)
                          | (Inr body, s4) \<Rightarrow>
                              (Inr (FunctionExpression ident params body (tok_start tok)
                                      (bs_end body)), s4))))))"
| "parseVariableDeclaration s =
     (case currentToken s of
        None \<Rightarrow> (Inl TypeError, s)
      | Some tok \<Rightarrow>
          (case goNext (One LetT) s of
             (Inl e, s1) \<Rightarrow> (Inl e, s1)
           | (Inr t, s1) \<Rightarrow>
               (case parseIdentifier s1 of
                  (Inl e, s2) \<Rightarrow> (Inl e, s2)
                | (Inr ident, s2) \<Rightarrow>
                    (case goNext (One Assign) s2 of
                       (Inl e, s3) \<Rightarrow> (Inl e, s3)
                     | (Inr t', s3) \<Rightarrow>
                         (case parseFunctionExpression s3 of
                            (Inl e, s4) \<Rightarrow> (Inl e, s4)
                          | (Inr init, s4) \<Rightarrow>
                              (case previousToken s4 of
                                 None \<Rightarrow> (Inl TypeError, s4)
                               | Some prev \<Rightarrow>
                                   (Inr (VariableDeclaration (tok_value tok)
                                           [VariableDeclarator ident init (tok_start tok)
                                              (fe_end init)]
                                           (tok_start tok) (enat (tok_end prev))), s4)))))))"
| "parseStatement s =
     (if checkCurrentTokenType (One LetT) s then parseVariableDeclaration s
      else (case currentToken s of
              None \<Rightarrow> (Inl TypeError, s)
            | Some tok \<Rightarrow>
                (Inl (Error (''Unexpected token: '' @ show_TokenType (tok_type tok))), s)))"
  by pat_completeness auto


text \<open>
  Termination. A call of \<open>parseBlockLoop\<close> continues in the state that \<open>parseStatement\<close>
  returned, so the proof needs to know, wherever the functions are defined, that a method
  leaves the token array alone and never moves the cursor back (\<open>keeps\<close>), and that a
  method that returns has moved the cursor forward, at most to the end (\<open>steps\<close>).
\<close>

definition keeps :: "Parser \<Rightarrow> 'a \<times> Parser \<Rightarrow> bool" where
  "keeps s p = (tokens (snd p) = tokens s \<and> currentIndex s \<le> currentIndex (snd p))"

definition steps :: "Parser \<Rightarrow> (error + 'a) \<times> Parser \<Rightarrow> bool" where
  "steps s p =
     (keeps s p \<and>
      (case fst p of
         Inl e \<Rightarrow> True
       | Inr x \<Rightarrow> currentIndex s < currentIndex (snd p) \<and>
                  currentIndex (snd p) \<le> length (tokens s)))"

lemma goNext_steps: "steps s (goNext type s)"
  by (auto simp: steps_def keeps_def goNext_def currentToken_def split: option.splits)

lemma parseIdentifier_steps: "steps s (parseIdentifier s)"
  using goNext_steps [of s "One Identifier"]
  by (auto simp: steps_def keeps_def parseIdentifier_def split: option.splits prod.splits sum.splits)

lemma parseParamLoop_keeps: "keeps s (parseParamLoop params s)"
proof (induction params s rule: parseParamLoop.induct)
  case (1 params s)
  show ?case
  proof (cases "checkCurrentTokenType (One RightParen) s")
    case True
    then show ?thesis by (simp add: parseParamLoop.simps [of params s] keeps_def)
  next
    case False
    obtain r s' where r: "parseIdentifier s = (r, s')" by (cases "parseIdentifier s")
    from parseIdentifier_steps [of s] r
    have k: "tokens s' = tokens s" "currentIndex s \<le> currentIndex s'"
      by (simp_all add: steps_def keeps_def)
    show ?thesis
    proof (cases r)
      case (Inl e)
      with False r k show ?thesis by (simp add: parseParamLoop.simps [of params s] keeps_def)
    next
      case (Inr n)
      with False r have "keeps s' (parseParamLoop (params @ [n]) s')"
        using "1.IH" [of "Inr n" s' n] by simp
      with False r k Inr show ?thesis
        by (simp add: parseParamLoop.simps [of params s] keeps_def)
    qed
  qed
qed

lemma parseParam_steps: "steps s (parseParam s)"
proof -
  obtain r1 s1 where g1: "goNext (One LeftParen) s = (r1, s1)" by (cases "goNext (One LeftParen) s")
  obtain r2 s2 where g2: "parseParamLoop [] s1 = (r2, s2)" by (cases "parseParamLoop [] s1")
  obtain r3 s3 where g3: "goNext (One RightParen) s2 = (r3, s3)" by (cases "goNext (One RightParen) s2")
  from goNext_steps [of s "One LeftParen"] g1 have a1: "steps s (r1, s1)" by simp
  from parseParamLoop_keeps [of s1 "[]"] g2 have a2: "keeps s1 (r2, s2)" by simp
  from goNext_steps [of s2 "One RightParen"] g3 have a3: "steps s2 (r3, s3)" by simp
  show ?thesis
    using a1 a2 a3 g1 g2 g3
    by (auto simp: parseParam_def steps_def keeps_def split: sum.splits)
qed


lemmas parse_pinduct =
  parseBlockLoop_parseBlockStatement_parseFunctionExpression_parseVariableDeclaration_parseStatement.pinduct

lemma parse_dom_steps:
  "parseBlockLoop_parseBlockStatement_parseFunctionExpression_parseVariableDeclaration_parseStatement_dom
     (Inl (Inl (body, s))) \<Longrightarrow> keeps s (parseBlockLoop body s)"
  "parseBlockLoop_parseBlockStatement_parseFunctionExpression_parseVariableDeclaration_parseStatement_dom
     (Inl (Inr s2)) \<Longrightarrow> steps s2 (parseBlockStatement s2)"
  "parseBlockLoop_parseBlockStatement_parseFunctionExpression_parseVariableDeclaration_parseStatement_dom
     (Inr (Inl s3)) \<Longrightarrow> steps s3 (parseFunctionExpression s3)"
  "parseBlockLoop_parseBlockStatement_parseFunctionExpression_parseVariableDeclaration_parseStatement_dom
     (Inr (Inr (Inl s4))) \<Longrightarrow> steps s4 (parseVariableDeclaration s4)"
  "parseBlockLoop_parseBlockStatement_parseFunctionExpression_parseVariableDeclaration_parseStatement_dom
     (Inr (Inr (Inr s5))) \<Longrightarrow> steps s5 (parseStatement s5)"
proof (induct rule: parse_pinduct)
  case (1 body s)
  show ?case
  proof (cases "checkCurrentTokenType (One RightCurly) s")
    case True
    then show ?thesis by (simp add: parseBlockLoop.psimps [OF "1.hyps"(1)] keeps_def)
  next
    case False
    obtain r s' where r: "parseStatement s = (r, s')" by (cases "parseStatement s")
    from "1.hyps"(2) [OF False] r have st: "steps s (r, s')" by simp
    show ?thesis
    proof (cases r)
      case (Inl e)
      with False r st show ?thesis
        by (simp add: parseBlockLoop.psimps [OF "1.hyps"(1)] steps_def keeps_def)
    next
      case (Inr node)
      from "1.hyps"(3) [OF False r [symmetric] Inr]
      have "keeps s' (parseBlockLoop (body @ [node]) s')" .
      with False r st Inr show ?thesis
        by (simp add: parseBlockLoop.psimps [OF "1.hyps"(1)] steps_def keeps_def)
    qed
  qed
next
  case (2 s)
  show ?case
  proof (cases "currentToken s")
    case None
    then show ?thesis
      by (simp add: parseBlockStatement.psimps [OF "2.hyps"(1)] steps_def keeps_def)
  next
    case (Some tok)
    obtain r1 s1 where g1: "goNext (One LeftCurly) s = (r1, s1)"
      by (cases "goNext (One LeftCurly) s")
    from goNext_steps [of s "One LeftCurly"] g1 have a1: "steps s (r1, s1)" by simp
    show ?thesis
    proof (cases r1)
      case (Inl e)
      with Some g1 a1 show ?thesis
        by (simp add: parseBlockStatement.psimps [OF "2.hyps"(1)] steps_def keeps_def)
    next
      case (Inr t)
      obtain r2 s2 where g2: "parseBlockLoop [] s1 = (r2, s2)"
        by (cases "parseBlockLoop [] s1")
      from "2.hyps"(2) [OF Some g1 [symmetric] Inr] g2 have a2: "keeps s1 (r2, s2)" by simp
      obtain r3 s3 where g3: "goNext (One RightCurly) s2 = (r3, s3)"
        by (cases "goNext (One RightCurly) s2")
      from goNext_steps [of s2 "One RightCurly"] g3 have a3: "steps s2 (r3, s3)" by simp
      from Some g1 Inr g2 g3 a1 a2 a3 show ?thesis
        by (auto simp: parseBlockStatement.psimps [OF "2.hyps"(1)] steps_def keeps_def
                 split: sum.splits option.splits)
    qed
  qed
next
  case (3 s)
  show ?case
  proof (cases "currentToken s")
    case None
    then show ?thesis
      by (simp add: parseFunctionExpression.psimps [OF "3.hyps"(1)] steps_def keeps_def)
  next
    case (Some tok)
    obtain r1 s1 where g1: "goNext (One Function) s = (r1, s1)"
      by (cases "goNext (One Function) s")
    from goNext_steps [of s "One Function"] g1 have a1: "steps s (r1, s1)" by simp
    show ?thesis
    proof (cases r1)
      case (Inl e)
      with Some g1 a1 show ?thesis
        by (simp add: parseFunctionExpression.psimps [OF "3.hyps"(1)] steps_def keeps_def)
    next
      case (Inr t)
      define opt where "opt =
        (if checkCurrentTokenType (One Identifier) s1
         then (case parseIdentifier s1 of
                 (Inl e, s') \<Rightarrow> (Inl e, s')
               | (Inr n, s') \<Rightarrow> (Inr (Some n), s'))
         else (Inr None, s1))"
      obtain r2 s2 where g2: "opt = (r2, s2)" by (cases opt)
      have a2: "keeps s1 (r2, s2)"
        using g2 parseIdentifier_steps [of s1]
        by (auto simp: opt_def steps_def keeps_def split: if_splits prod.splits sum.splits)
      obtain r3 s3 where g3: "parseParam s2 = (r3, s3)" by (cases "parseParam s2")
      from parseParam_steps [of s2] g3 have a3: "steps s2 (r3, s3)" by simp
      obtain r4 s4 where g4: "parseBlockStatement s3 = (r4, s4)"
        by (cases "parseBlockStatement s3")
      have "r2 = Inr i \<Longrightarrow> r3 = Inr ps \<Longrightarrow> steps s3 (r4, s4)" for i ps
        using "3.hyps"(2) [OF Some g1 [symmetric] Inr g2 [symmetric, unfolded opt_def] _ g3 [symmetric]] g4
        by simp
      then have a4: "\<not> isl r2 \<Longrightarrow> \<not> isl r3 \<Longrightarrow> steps s3 (r4, s4)"
        by (cases r2; cases r3; simp)
      from Some g1 Inr g2 g3 g4 a1 a2 a3 a4 show ?thesis
        by (auto simp: parseFunctionExpression.psimps [OF "3.hyps"(1)] steps_def keeps_def
                 opt_def [symmetric] split: sum.splits)
    qed
  qed
next
  case (4 s)
  show ?case
  proof (cases "currentToken s")
    case None
    then show ?thesis
      by (simp add: parseVariableDeclaration.psimps [OF "4.hyps"(1)] steps_def keeps_def)
  next
    case (Some tok)
    obtain r1 s1 where g1: "goNext (One LetT) s = (r1, s1)"
      by (cases "goNext (One LetT) s")
    from goNext_steps [of s "One LetT"] g1 have a1: "steps s (r1, s1)" by simp
    obtain r2 s2 where g2: "parseIdentifier s1 = (r2, s2)" by (cases "parseIdentifier s1")
    from parseIdentifier_steps [of s1] g2 have a2: "steps s1 (r2, s2)" by simp
    obtain r3 s3 where g3: "goNext (One Assign) s2 = (r3, s3)"
      by (cases "goNext (One Assign) s2")
    from goNext_steps [of s2 "One Assign"] g3 have a3: "steps s2 (r3, s3)" by simp
    obtain r4 s4 where g4: "parseFunctionExpression s3 = (r4, s4)"
      by (cases "parseFunctionExpression s3")
    have "r1 = Inr t \<Longrightarrow> r2 = Inr i \<Longrightarrow> r3 = Inr t' \<Longrightarrow> steps s3 (r4, s4)" for t i t'
      using "4.hyps"(2) [OF Some g1 [symmetric] _ g2 [symmetric] _ g3 [symmetric]] g4
      by simp
    then have a4: "\<not> isl r1 \<Longrightarrow> \<not> isl r2 \<Longrightarrow> \<not> isl r3 \<Longrightarrow> steps s3 (r4, s4)"
      by (cases r1; cases r2; cases r3; simp)
    from Some g1 g2 g3 g4 a1 a2 a3 a4 show ?thesis
      by (auto simp: parseVariableDeclaration.psimps [OF "4.hyps"(1)] steps_def keeps_def
               split: sum.splits option.splits)
  qed
next
  case (5 s)
  show ?case
  proof (cases "checkCurrentTokenType (One LetT) s")
    case True
    with "5.hyps"(2) show ?thesis by (simp add: parseStatement.psimps [OF "5.hyps"(1)])
  next
    case False
    then show ?thesis
      by (simp add: parseStatement.psimps [OF "5.hyps"(1)] steps_def keeps_def
               split: option.splits)
  qed
qed


definition remaining :: "Parser \<Rightarrow> nat" where
  "remaining s = length (tokens s) - currentIndex s"

lemma steps_remaining:
  "steps s (Inr x, s') \<Longrightarrow> remaining s' < remaining s"
  by (auto simp: steps_def keeps_def remaining_def)

lemma keeps_remaining:
  "keeps s (x, s') \<Longrightarrow> remaining s' \<le> remaining s"
  by (auto simp: keeps_def remaining_def)


lemma parse_all_dom:
  "All parseBlockLoop_parseBlockStatement_parseFunctionExpression_parseVariableDeclaration_parseStatement_dom"
proof (relation "inv_image (less_than <*lex*> less_than)
     (\<lambda>x. case x of
        Inl (Inl (body, s)) \<Rightarrow> (remaining s, 4::nat)
      | Inl (Inr s) \<Rightarrow> (remaining s, 0)
      | Inr (Inl s) \<Rightarrow> (remaining s, 1)
      | Inr (Inr (Inl s)) \<Rightarrow> (remaining s, 2)
      | Inr (Inr (Inr s)) \<Rightarrow> (remaining s, 3))", goal_cases)
  case 1
  show ?case by (intro wf_inv_image wf_lex_prod wf_less_than)
next
  case (2 body s)
  show ?case by simp
next
  case (3 body s x y b)
  from parse_dom_steps(5) [OF 3(4)] 3(2,3) have "steps s (Inr b, y)" by simp
  then show ?case using steps_remaining by simp
next
  case (4 s x2 x y b)
  from goNext_steps [of s "One LeftCurly"] 4(2,3) have "steps s (Inr b, y)" by simp
  then show ?case using steps_remaining by simp
next
  case (5 s x2 x y b xa ya ba xb yb bb)
  from goNext_steps [of s "One Function"] 5(2,3) have "steps s (Inr b, y)" by simp
  then have a1: "remaining y < remaining s" by (rule steps_remaining)
  have "keeps y (xa, ya)"
    using 5(4) parseIdentifier_steps [of y]
    by (auto simp: steps_def keeps_def split: if_splits prod.splits sum.splits)
  then have a2: "remaining ya \<le> remaining y" by (rule keeps_remaining)
  from parseParam_steps [of ya] 5(6,7) have "steps ya (Inr bb, yb)" by simp
  then have a3: "remaining yb < remaining ya" by (rule steps_remaining)
  from a1 a2 a3 show ?case by simp
next
  case (6 s x2 x y b xa ya ba xb yb bb)
  from goNext_steps [of s "One LetT"] 6(2,3) have "steps s (Inr b, y)" by simp
  then have a1: "remaining y < remaining s" by (rule steps_remaining)
  from parseIdentifier_steps [of y] 6(4,5) have "steps y (Inr ba, ya)" by simp
  then have a2: "remaining ya < remaining y" by (rule steps_remaining)
  from goNext_steps [of ya "One Assign"] 6(6,7) have "steps ya (Inr bb, yb)" by simp
  then have a3: "remaining yb < remaining ya" by (rule steps_remaining)
  from a1 a2 a3 show ?case by simp
next
  case (7 s)
  show ?case by simp
qed



termination parseBlockLoop
  by (rule parse_all_dom)

declare parseBlockLoop.simps [simp del] parseBlockStatement.simps [simp del]
  parseFunctionExpression.simps [simp del] parseVariableDeclaration.simps [simp del]
  parseStatement.simps [simp del]

lemmas parse_induct =
  parseBlockLoop_parseBlockStatement_parseFunctionExpression_parseVariableDeclaration_parseStatement.induct

lemmas parseBlockLoop_keeps = parse_dom_steps(1) [OF parse_all_dom [THEN spec]]
lemmas parseBlockStatement_steps = parse_dom_steps(2) [OF parse_all_dom [THEN spec]]
lemmas parseFunctionExpression_steps = parse_dom_steps(3) [OF parse_all_dom [THEN spec]]
lemmas parseVariableDeclaration_steps = parse_dom_steps(4) [OF parse_all_dom [THEN spec]]
lemmas parseStatement_steps = parse_dom_steps(5) [OF parse_all_dom [THEN spec]]

text \<open>\<open>#parseProgram\<close>; \<open>parseProgramLoop\<close> is its \<open>while\<close> loop, and \<open>node.end\<close> is \<open>vd_end node\<close>.\<close>

function parseProgramLoop :: "Program \<Rightarrow> Parser \<Rightarrow> (error + Program) \<times> Parser" where
  "parseProgramLoop program s =
     (if \<not> isEnd s then
        (case parseStatement s of
           (Inl e, s') \<Rightarrow> (Inl e, s')
         | (Inr node, s') \<Rightarrow>
             parseProgramLoop
               (if isEnd s'
                then program\<lparr>prog_body := prog_body program @ [node], prog_end := vd_end node\<rparr>
                else program\<lparr>prog_body := prog_body program @ [node]\<rparr>)
               s')
      else (Inr program, s))"
  by pat_completeness auto
termination
proof (relation "measure (\<lambda>(program, s). remaining s)", goal_cases)
  case 1
  show ?case by simp
next
  case (2 program s x y b)
  from parseStatement_steps [of s] 2(2,3) have "steps s (Inr b, y)" by simp
  then show ?case using steps_remaining by simp
qed

declare parseProgramLoop.simps [simp del]

definition parseProgram :: "Parser \<Rightarrow> (error + Program) \<times> Parser" where
  "parseProgram s = parseProgramLoop \<lparr>prog_body = [], prog_start = 0, prog_end = \<infinity>\<rparr> s"

definition parse :: "Parser \<Rightarrow> (error + Program) \<times> Parser" where
  "parse s = parseProgram s"

text \<open>\<open>new Parser(tokens).parse()\<close>: the Program, or what was thrown.\<close>

definition parse_tokens :: "Token list \<Rightarrow> error + Program" where
  "parse_tokens toks = fst (parse (new_Parser toks))"

section \<open>Nodes and the tokens they were built from\<close>

text \<open>
  The number of tokens a node stands for: a declaration is \<open>let\<close> and its declarators; a
  declarator is its name, \<open>=\<close> and the function expression; a function expression is
  \<open>function\<close>, the optional name, the parenthesised parameters and the block; a block is
  its two braces and the statements between them.
\<close>

primrec Statement_count :: "Statement \<Rightarrow> nat"
  and VariableDeclarator_count :: "VariableDeclarator \<Rightarrow> nat"
  and FunctionExpression_count :: "FunctionExpression \<Rightarrow> nat"
  and BlockStatement_count :: "BlockStatement \<Rightarrow> nat"
where
  "Statement_count (VariableDeclaration kind ds st en) =
     1 + sum_list (map VariableDeclarator_count ds)"
| "VariableDeclarator_count (VariableDeclarator ident init st en) =
     2 + FunctionExpression_count init"
| "FunctionExpression_count (FunctionExpression ident ps body st en) =
     1 + (case ident of None \<Rightarrow> 0 | Some n \<Rightarrow> 1) + 1 + length ps + 1 +
     BlockStatement_count body"
| "BlockStatement_count (BlockStatement body st en) =
     1 + sum_list (map Statement_count body) + 1"

text \<open>
  \<open>Statement_ends toks i node\<close>: the node and the nodes below it, laid over the tokens from
  index \<open>i\<close> on, have the ends the parser is to give them. The tokens of the node are in
  the sequence and start with the token the node starts with; the \<open>end\<close> of a declaration
  is the \<open>end\<close> of the last of its tokens; the \<open>end\<close> of a function expression is the \<open>end\<close>
  of its body; the last token of a block is a \<open>}\<close>, and the \<open>end\<close> of the block is the
  \<open>end\<close> of that token.
\<close>

fun Statement_ends :: "Token list \<Rightarrow> nat \<Rightarrow> Statement \<Rightarrow> bool"
  and Statements_ends :: "Token list \<Rightarrow> nat \<Rightarrow> Statement list \<Rightarrow> bool"
  and VariableDeclarator_ends :: "Token list \<Rightarrow> nat \<Rightarrow> VariableDeclarator \<Rightarrow> bool"
  and VariableDeclarators_ends :: "Token list \<Rightarrow> nat \<Rightarrow> VariableDeclarator list \<Rightarrow> bool"
  and FunctionExpression_ends :: "Token list \<Rightarrow> nat \<Rightarrow> FunctionExpression \<Rightarrow> bool"
  and BlockStatement_ends :: "Token list \<Rightarrow> nat \<Rightarrow> BlockStatement \<Rightarrow> bool"
where
  "Statement_ends toks i (VariableDeclaration kind ds st en) =
     (i + Statement_count (VariableDeclaration kind ds st en) \<le> length toks \<and>
      tok_type (toks ! i) = LetT \<and>
      en = enat (tok_end (toks ! (i + Statement_count (VariableDeclaration kind ds st en) - 1))) \<and>
      VariableDeclarators_ends toks (i + 1) ds)"
| "Statements_ends toks i [] = True"
| "Statements_ends toks i (x # xs) =
     (Statement_ends toks i x \<and> Statements_ends toks (i + Statement_count x) xs)"
| "VariableDeclarator_ends toks i (VariableDeclarator ident init st en) =
     FunctionExpression_ends toks (i + 2) init"
| "VariableDeclarators_ends toks i [] = True"
| "VariableDeclarators_ends toks i (d # ds) =
     (VariableDeclarator_ends toks i d \<and>
      VariableDeclarators_ends toks (i + VariableDeclarator_count d) ds)"
| "FunctionExpression_ends toks i (FunctionExpression ident ps body st en) =
     (tok_type (toks ! i) = Function \<and>
      en = bs_end body \<and>
      BlockStatement_ends toks
        (i + 1 + (case ident of None \<Rightarrow> 0 | Some n \<Rightarrow> 1) + 1 + length ps + 1) body)"
| "BlockStatement_ends toks i (BlockStatement body st en) =
     (i + BlockStatement_count (BlockStatement body st en) \<le> length toks \<and>
      tok_type (toks ! i) = LeftCurly \<and>
      tok_type (toks ! (i + BlockStatement_count (BlockStatement body st en) - 1)) = RightCurly \<and>
      en = enat (tok_end (toks ! (i + BlockStatement_count (BlockStatement body st en) - 1))) \<and>
      Statements_ends toks (i + 1) body)"

section \<open>The grammar of the specification\<close>

text \<open>
  The grammar as the specification writes it, over token sequences; the parser is compared
  with it below.
  \<^verbatim>\<open>
  Program             := Statement*
  Statement           := VariableDeclaration
  VariableDeclaration := "let" Identifier "=" FunctionExpression
  FunctionExpression  := "function" Identifier? "(" Identifier* ")" BlockStatement
  BlockStatement      := "{" Statement* "}"
  \<close>
  \<open>spec_Statements n ts\<close>: the tokens \<open>ts\<close> are \<open>n\<close> statements in a row; a Program is that.
\<close>

inductive spec_Statement :: "Token list \<Rightarrow> bool"
  and spec_Statements :: "nat \<Rightarrow> Token list \<Rightarrow> bool"
  and spec_FunctionExpression :: "Token list \<Rightarrow> bool"
  and spec_BlockStatement :: "Token list \<Rightarrow> bool"
where
  VariableDeclaration:
    "tok_type l = LetT \<Longrightarrow> tok_type i = Identifier \<Longrightarrow> tok_type a = Assign \<Longrightarrow>
     spec_FunctionExpression fe \<Longrightarrow> spec_Statement (l # i # a # fe)"
| No_Statement: "spec_Statements 0 []"
| More_Statements:
    "spec_Statement x \<Longrightarrow> spec_Statements n xs \<Longrightarrow> spec_Statements (Suc n) (x @ xs)"
| Anonymous:
    "tok_type f = Function \<Longrightarrow> tok_type lp = LeftParen \<Longrightarrow>
     list_all (\<lambda>t. tok_type t = Identifier) params \<Longrightarrow> tok_type rp = RightParen \<Longrightarrow>
     spec_BlockStatement b \<Longrightarrow> spec_FunctionExpression (f # lp # params @ rp # b)"
| Named:
    "tok_type f = Function \<Longrightarrow> tok_type i = Identifier \<Longrightarrow> tok_type lp = LeftParen \<Longrightarrow>
     list_all (\<lambda>t. tok_type t = Identifier) params \<Longrightarrow> tok_type rp = RightParen \<Longrightarrow>
     spec_BlockStatement b \<Longrightarrow> spec_FunctionExpression (f # i # lp # params @ rp # b)"
| Block:
    "tok_type lc = LeftCurly \<Longrightarrow> spec_Statements n body \<Longrightarrow> tok_type rc = RightCurly \<Longrightarrow>
     spec_BlockStatement (lc # body @ [rc])"

text \<open>The parser with its cursor at index \<open>i\<close> of \<open>toks\<close>.\<close>

abbreviation state_at :: "Token list \<Rightarrow> nat \<Rightarrow> Parser" where
  "state_at toks i \<equiv> \<lparr>tokens = toks, currentIndex = i\<rparr>"

section \<open>Example inputs\<close>

text \<open>The tokens of \<open>let a = function() {}\<close>.\<close>

definition example1_tokens :: "Token list" where
  "example1_tokens =
     [\<lparr>tok_type = LetT, tok_value = Some ''let'', tok_start = 0, tok_end = 3, tok_raw = None\<rparr>,
      \<lparr>tok_type = Identifier, tok_value = Some ''a'', tok_start = 4, tok_end = 5,
         tok_raw = None\<rparr>,
      \<lparr>tok_type = Assign, tok_value = Some ''='', tok_start = 6, tok_end = 7, tok_raw = None\<rparr>,
      \<lparr>tok_type = Function, tok_value = Some ''function'', tok_start = 8, tok_end = 16,
         tok_raw = None\<rparr>,
      \<lparr>tok_type = LeftParen, tok_value = Some ''('', tok_start = 16, tok_end = 17,
         tok_raw = None\<rparr>,
      \<lparr>tok_type = RightParen, tok_value = Some '')'', tok_start = 17, tok_end = 18,
         tok_raw = None\<rparr>,
      \<lparr>tok_type = LeftCurly, tok_value = Some ''{'', tok_start = 19, tok_end = 20,
         tok_raw = None\<rparr>,
      \<lparr>tok_type = RightCurly, tok_value = Some ''}'', tok_start = 20, tok_end = 21,
         tok_raw = None\<rparr>]"

text \<open>The tokens of \<open>let a function() {}\<close>, where the \<open>=\<close> is missing.\<close>

definition example3_tokens :: "Token list" where
  "example3_tokens =
     [\<lparr>tok_type = LetT, tok_value = Some ''let'', tok_start = 0, tok_end = 3, tok_raw = None\<rparr>,
      \<lparr>tok_type = Identifier, tok_value = Some ''a'', tok_start = 4, tok_end = 5,
         tok_raw = None\<rparr>,
      \<lparr>tok_type = Function, tok_value = Some ''function'', tok_start = 6, tok_end = 14,
         tok_raw = None\<rparr>,
      \<lparr>tok_type = LeftParen, tok_value = Some ''('', tok_start = 14, tok_end = 15,
         tok_raw = None\<rparr>,
      \<lparr>tok_type = RightParen, tok_value = Some '')'', tok_start = 15, tok_end = 16,
         tok_raw = None\<rparr>,
      \<lparr>tok_type = LeftCurly, tok_value = Some ''{'', tok_start = 17, tok_end = 18,
         tok_raw = None\<rparr>,
      \<lparr>tok_type = RightCurly, tok_value = Some ''}'', tok_start = 18, tok_end = 19,
         tok_raw = None\<rparr>]"

text \<open>The tokens of \<open>let a =\<close>, which ends where a function expression has to follow.\<close>

definition truncated_tokens :: "Token list" where
  "truncated_tokens =
     [\<lparr>tok_type = LetT, tok_value = Some ''let'', tok_start = 0, tok_end = 3, tok_raw = None\<rparr>,
      \<lparr>tok_type = Identifier, tok_value = Some ''a'', tok_start = 4, tok_end = 5,
         tok_raw = None\<rparr>,
      \<lparr>tok_type = Assign, tok_value = Some ''='', tok_start = 6, tok_end = 7, tok_raw = None\<rparr>]"

text \<open>
  What \<open>tokenize\<close> returns for \<open>let assign = function() {}\<close>, a declaration of a function
  named \<open>assign\<close>: the name has become the token of \<open>=\<close>.
\<close>

definition assign_tokens :: "Token list" where
  "assign_tokens =
     [\<lparr>tok_type = LetT, tok_value = Some ''let'', tok_start = 0, tok_end = 3, tok_raw = None\<rparr>,
      \<lparr>tok_type = Assign, tok_value = Some ''='', tok_start = 4, tok_end = 5, tok_raw = None\<rparr>,
      \<lparr>tok_type = Assign, tok_value = Some ''='', tok_start = 11, tok_end = 12,
         tok_raw = None\<rparr>,
      \<lparr>tok_type = Function, tok_value = Some ''function'', tok_start = 13, tok_end = 21,
         tok_raw = None\<rparr>,
      \<lparr>tok_type = LeftParen, tok_value = Some ''('', tok_start = 21, tok_end = 22,
         tok_raw = None\<rparr>,
      \<lparr>tok_type = RightParen, tok_value = Some '')'', tok_start = 22, tok_end = 23,
         tok_raw = None\<rparr>,
      \<lparr>tok_type = LeftCurly, tok_value = Some ''{'', tok_start = 24, tok_end = 25,
         tok_raw = None\<rparr>,
      \<lparr>tok_type = RightCurly, tok_value = Some ''}'', tok_start = 25, tok_end = 26,
         tok_raw = None\<rparr>]"

text \<open>The tree of \<open>let a = function() {}\<close>.\<close>

definition example1_program :: Program where
  "example1_program =
     \<lparr>prog_body =
        [VariableDeclaration (Some ''let'')
           [VariableDeclarator (IdentifierNode (Some ''a'') 4 5)
              (FunctionExpression None [] (BlockStatement [] 19 21) 8 21) 0 21]
           0 21],
      prog_start = 0, prog_end = 21\<rparr>"

section \<open>The scanner\<close>

text \<open>
  A state whose current character is no space, no letter and none of the five single
  characters is a state the loop never leaves: the body changes nothing, so the loop
  does not return.
\<close>

lemma tokenize_loop_stuck:
  assumes "tk_currentIndex s < length (tk_source s)"
    and "tk_source s ! tk_currentIndex s \<noteq> CHR '' ''"
    and "\<not> isAlpha (tk_source s ! tk_currentIndex s)"
    and "\<not> isSingleCharToken (tk_source s ! tk_currentIndex s)"
  shows "tokenize_loop s = None"
proof (rule ccontr)
  assume "tokenize_loop s \<noteq> None"
  then obtain y where y: "tokenize_loop s = Some y" by auto
  have "s \<noteq> s"
  proof (rule tokenize_loop.raw_induct [where P = "\<lambda>s' y'. s' \<noteq> s", OF _ y], goal_cases)
    case (1 f s' y')
    show ?case
    proof
      assume "s' = s"
      with 1(2) assms have "f s = Some y'" by simp
      with 1(1) show False by blast
    qed
  qed
  then show False by simp
qed

text \<open>
  C1 (the code departs from the claim). The claim: \<open>tokenize\<close> returns a token sequence for
  every input, and a character that is no space, no letter and none of \<open>( ) { } =\<close> is
  skipped. On the input \<open>1\<close> the loop does not return: no branch of the loop body
  matches the digit and the cursor stays where it is.
\<close>

theorem tokenize_digit_never_returns: "tokenize ''1'' = None"
  unfolding tokenize_def
  by (rule tokenize_loop_stuck)
     (simp_all add: new_Tokenizer_def isAlpha_def isSingleCharToken_def
        KNOWN_SINGLE_CHAR_TOKENS_def)

text \<open>
  C2 (the code departs from the claim). The claim: a run of letters gives a keyword token
  exactly when it spells \<open>let\<close> or \<open>function\<close>, and an Identifier token with the scanned
  text and its span otherwise. The word is looked up in the generator table, which also
  has the keys of the punctuation generators: the run \<open>assign\<close>, six characters long,
  gives the Assign token of \<open>=\<close> with the span from 0 to 1.
\<close>

theorem tokenize_word_assign:
  "tokenize ''assign'' =
     Some (Inr [Tok \<lparr>tok_type = Assign, tok_value = Some ''='', tok_start = 0, tok_end = 1,
                     tok_raw = None\<rparr>])"
  by code_simp

section \<open>The parser on the examples\<close>

text \<open>
  C3 (the code departs from the claim). The claim: \<open>parse\<close> returns a Program or fails with
  the descriptive error that carries the expected and the actual type, also when the
  tokens end where the grammar requires one more, as those of \<open>let a =\<close> do. There
  \<open>#parseFunctionExpression\<close> reads \<open>start\<close> of a current token that is \<open>undefined\<close>, and
  what is thrown is the \<open>TypeError\<close> of the runtime.
\<close>

theorem parse_truncated_TypeError:
  "tokenize ''let a ='' = Some (Inr (map Tok truncated_tokens)) \<and>
   parse_tokens truncated_tokens = Inl TypeError"
  by code_simp

text \<open>
  C5 (the code departs from the claim). The claim: \<open>#goNext\<close>, given a set of expected
  types that has the current token's type as a member, moves the cursor on and returns the
  token. Called with the array of \<open>Let\<close> and \<open>Function\<close> at a \<open>Let\<close> token, it passes its
  first test and throws at the second, \<open>currentType !== type\<close>, which holds for every
  array; the cursor stays at 0.
\<close>

theorem goNext_array_member_throws:
  "goNext (Many [LetT, Function]) (new_Parser example1_tokens) =
     (Inl (Error ''Expect Let,Function, but got Let''), new_Parser example1_tokens)"
  by code_simp

text \<open>
  C6. Parsing the tokens of \<open>let a function() {}\<close> fails with the error that expects
  Assign and got Function; no Program is returned.
\<close>

theorem parse_missing_assign:
  "tokenize ''let a function() {}'' = Some (Inr (map Tok example3_tokens)) \<and>
   parse_tokens example3_tokens = Inl (Error ''Expect Assign, but got Function'')"
  by code_simp

text \<open>
  C7. \<open>parse(tokenize("let a = function() {}"))\<close> is a Program whose body is one
  VariableDeclaration of kind \<open>let\<close> with one declarator: its id is the Identifier \<open>a\<close>, its
  init an anonymous FunctionExpression without params, whose body is a BlockStatement with
  an empty body.
\<close>

theorem parse_example1:
  "tokenize ''let a = function() {}'' = Some (Inr (map Tok example1_tokens)) \<and>
   parse_tokens example1_tokens =
     Inr \<lparr>prog_body =
            [VariableDeclaration (Some ''let'')
               [VariableDeclarator (IdentifierNode (Some ''a'') 4 5)
                  (FunctionExpression None [] (BlockStatement [] 19 21) 8 21) 0 21]
               0 21],
          prog_start = 0, prog_end = 21\<rparr>"
  by code_simp

text \<open>
  C8. \<open>tokenize("")\<close> is the empty sequence, and parsing the empty sequence gives a Program
  with an empty body, start 0 and the sentinel \<open>Infinity\<close> as its end.
\<close>

theorem parse_empty_input:
  "tokenize '''' = Some (Inr []) \<and>
   parse_tokens [] = Inr \<lparr>prog_body = [], prog_start = 0, prog_end = \<infinity>\<rparr>"
  by code_simp

text \<open>
  C4 (the code departs from the claim). The claim: for every source that the grammar
  accepts, \<open>parse(tokenize(source))\<close> succeeds, and the body of the Program has as many
  statements as the source has top-level declarations. The source
  \<open>let assign = function() {}\<close> declares one function, named \<open>assign\<close>; the scanner turns
  the name into the token of \<open>=\<close> (see C2), and the parser throws where it expects the
  Identifier.
\<close>

theorem parse_declaration_named_assign:
  "tokenize ''let assign = function() {}'' = Some (Inr (map Tok assign_tokens)) \<and>
   parse_tokens assign_tokens = Inl (Error ''Expect Identifier, but got Assign'')"
  by code_simp

section \<open>The parser leaves its tokens alone\<close>

lemma parseProgramLoop_keeps: "keeps s (parseProgramLoop program s)"
proof (induction program s rule: parseProgramLoop.induct)
  case (1 program s)
  show ?case
  proof (cases "isEnd s")
    case True
    then show ?thesis by (simp add: parseProgramLoop.simps [of program s] keeps_def)
  next
    case False
    obtain r s' where r: "parseStatement s = (r, s')" by (cases "parseStatement s")
    from parseStatement_steps [of s] r
    have k: "tokens s' = tokens s" "currentIndex s \<le> currentIndex s'"
      by (simp_all add: steps_def keeps_def)
    show ?thesis
    proof (cases r)
      case (Inl e)
      with False r k show ?thesis by (simp add: parseProgramLoop.simps [of program s] keeps_def)
    next
      case (Inr node)
      from "1.IH" [OF False r [symmetric] Inr] k False r Inr show ?thesis
        by (simp add: parseProgramLoop.simps [of program s] keeps_def)
    qed
  qed
qed

text \<open>
  C10. \<open>parse\<close> does not change its input. The constructor copies the array into the
  private field, and whether \<open>parse\<close> returns or throws, the state it leaves behind has the
  tokens the constructor was given, each with the fields it had.
\<close>

theorem parse_keeps_tokens: "tokens (snd (parse (new_Parser toks))) = toks"
  using parseProgramLoop_keeps [of "new_Parser toks"]
  by (simp add: parse_def parseProgram_def keeps_def new_Parser_def)

section \<open>The ends of the nodes\<close>

lemma checkCurrentTokenType_One:
  "checkCurrentTokenType (One t) s =
     (currentIndex s < length (tokens s) \<and> tok_type (tokens s ! currentIndex s) = t)"
  by (auto simp: checkCurrentTokenType_def isEnd_def)

lemma goNext_One_Inr:
  assumes "goNext (One t) s = (Inr tok, s')"
  shows "currentIndex s < length (tokens s)" "tok_type (tokens s ! currentIndex s) = t"
    "tok = tokens s ! currentIndex s" "tokens s' = tokens s"
    "currentIndex s' = currentIndex s + 1"
  using goNext_Inr [OF assms] by auto

lemma parseIdentifier_Inr2:
  assumes "parseIdentifier s = (Inr n, s')"
  shows "tokens s' = tokens s" "currentIndex s' = currentIndex s + 1"
  using parseIdentifier_Inr [OF assms] by auto

lemma parseParamLoop_Inr:
  "parseParamLoop params s = (Inr ps, s') \<Longrightarrow>
     tokens s' = tokens s \<and>
     (\<exists>new. ps = params @ new \<and> currentIndex s' = currentIndex s + length new)"
proof (induction params s rule: parseParamLoop.induct)
  case (1 params s)
  show ?case
  proof (cases "checkCurrentTokenType (One RightParen) s")
    case True
    with "1.prems" show ?thesis by (simp add: parseParamLoop.simps [of params s])
  next
    case False
    with "1.prems" obtain n s1 where n: "parseIdentifier s = (Inr n, s1)"
      and rest: "parseParamLoop (params @ [n]) s1 = (Inr ps, s')"
      by (auto simp: parseParamLoop.simps [of params s] split: prod.splits sum.splits)
    from "1.IH" [OF False n [symmetric] refl rest] parseIdentifier_Inr2 [OF n]
    show ?thesis by auto
  qed
qed

lemma parseParam_Inr:
  assumes "parseParam s = (Inr ps, s')"
  shows "tokens s' = tokens s" "currentIndex s' = currentIndex s + 2 + length ps"
proof -
  from assms obtain t s1 s2 t' where g1: "goNext (One LeftParen) s = (Inr t, s1)"
    and g2: "parseParamLoop [] s1 = (Inr ps, s2)"
    and g3: "goNext (One RightParen) s2 = (Inr t', s')"
    by (auto simp: parseParam_def split: prod.splits sum.splits)
  from goNext_One_Inr [OF g1] parseParamLoop_Inr [OF g2] goNext_One_Inr [OF g3]
  show "tokens s' = tokens s" "currentIndex s' = currentIndex s + 2 + length ps"
    by auto
qed

lemma Statements_ends_append:
  "Statements_ends toks i (xs @ ys) =
     (Statements_ends toks i xs \<and>
      Statements_ends toks (i + sum_list (map Statement_count xs)) ys)"
  by (induction xs arbitrary: i) (auto simp: add.assoc)

lemma parse_ends:
  "parseBlockLoop body s = (Inr body', s') \<Longrightarrow>
     checkCurrentTokenType (One RightCurly) s' \<and>
     (\<exists>nodes. body' = body @ nodes \<and>
        currentIndex s' = currentIndex s + sum_list (map Statement_count nodes) \<and>
        Statements_ends (tokens s) (currentIndex s) nodes)"
  "parseBlockStatement s2 = (Inr b, s2') \<Longrightarrow>
     currentIndex s2' = currentIndex s2 + BlockStatement_count b \<and>
     BlockStatement_ends (tokens s2) (currentIndex s2) b"
  "parseFunctionExpression s3 = (Inr fe, s3') \<Longrightarrow>
     currentIndex s3' = currentIndex s3 + FunctionExpression_count fe \<and>
     FunctionExpression_ends (tokens s3) (currentIndex s3) fe"
  "parseVariableDeclaration s4 = (Inr vd, s4') \<Longrightarrow>
     currentIndex s4' = currentIndex s4 + Statement_count vd \<and>
     Statement_ends (tokens s4) (currentIndex s4) vd"
  "parseStatement s5 = (Inr st, s5') \<Longrightarrow>
     currentIndex s5' = currentIndex s5 + Statement_count st \<and>
     Statement_ends (tokens s5) (currentIndex s5) st"
proof (induction body s and s2 and s3 and s4 and s5
    arbitrary: body' s' and b s2' and fe s3' and vd s4' and st s5' rule: parse_induct)
  case (1 body s)
  show ?case
  proof (cases "checkCurrentTokenType (One RightCurly) s")
    case True
    with "1.prems" show ?thesis by (simp add: parseBlockLoop.simps [of body s])
  next
    case False
    with "1.prems" obtain node s1 where n: "parseStatement s = (Inr node, s1)"
      and rest: "parseBlockLoop (body @ [node]) s1 = (Inr body', s')"
      by (auto simp: parseBlockLoop.simps [of body s] split: prod.splits sum.splits)
    from parseStatement_steps [of s] n have k: "tokens s1 = tokens s"
      by (simp add: steps_def keeps_def)
    from "1.IH"(1) [OF False n] have a: "currentIndex s1 = currentIndex s + Statement_count node"
      "Statement_ends (tokens s) (currentIndex s) node" by simp_all
    from "1.IH"(2) [OF False n [symmetric] refl rest] obtain nodes where
      b: "checkCurrentTokenType (One RightCurly) s'" "body' = (body @ [node]) @ nodes"
      "currentIndex s' = currentIndex s1 + sum_list (map Statement_count nodes)"
      "Statements_ends (tokens s1) (currentIndex s1) nodes" by auto
    from a b k have "body' = body @ (node # nodes) \<and>
        currentIndex s' = currentIndex s + sum_list (map Statement_count (node # nodes)) \<and>
        Statements_ends (tokens s) (currentIndex s) (node # nodes)" by simp
    with b(1) show ?thesis by blast
  qed
next
  case (2 s)
  from "2.prems" obtain tok t s1 body sa cur t' where
    c: "currentToken s = Some tok" and g1: "goNext (One LeftCurly) s = (Inr t, s1)"
    and g2: "parseBlockLoop [] s1 = (Inr body, sa)" and c2: "currentToken sa = Some cur"
    and g3: "goNext (One RightCurly) sa = (Inr t', s2')"
    and b: "b = BlockStatement body (tok_start tok) (enat (tok_end cur))"
    by (auto simp: parseBlockStatement.simps [of s] split: option.splits prod.splits sum.splits)
  note f1 = goNext_One_Inr [OF g1]
  note f3 = goNext_One_Inr [OF g3]
  from "2.IH" [OF c g1 [symmetric] refl g2] obtain nodes where
    l: "body = nodes" "currentIndex sa = currentIndex s1 + sum_list (map Statement_count nodes)"
      "Statements_ends (tokens s1) (currentIndex s1) nodes" by auto
  from parseBlockLoop_keeps [of s1 "[]"] g2 have k: "tokens sa = tokens s1"
    by (simp add: keeps_def)
  from c2 have cur: "cur = tokens sa ! currentIndex sa"
    by (auto simp: currentToken_def split: if_splits)
  from f1 f3 l k cur b show ?case by simp
next
  case (3 s)
  from "3.prems" obtain tok t s1 ident sa ps sb body where
    c: "currentToken s = Some tok" and g1: "goNext (One Function) s = (Inr t, s1)"
    and g2: "(if checkCurrentTokenType (One Identifier) s1
              then (case parseIdentifier s1 of
                      (Inl e, s') \<Rightarrow> (Inl e, s')
                    | (Inr n, s') \<Rightarrow> (Inr (Some n), s'))
              else (Inr None, s1)) = (Inr ident, sa)"
    and g3: "parseParam sa = (Inr ps, sb)"
    and g4: "parseBlockStatement sb = (Inr body, s3')"
    and fe: "fe = FunctionExpression ident ps body (tok_start tok) (bs_end body)"
    by (auto simp: parseFunctionExpression.simps [of s] split: option.splits prod.splits sum.splits)
  note f1 = goNext_One_Inr [OF g1]
  have f2: "tokens sa = tokens s1"
    "currentIndex sa = currentIndex s1 + (case ident of None \<Rightarrow> 0 | Some n \<Rightarrow> 1)"
    using g2 by (auto split: if_splits prod.splits sum.splits dest: parseIdentifier_Inr2)
  note f3 = parseParam_Inr [OF g3]
  from "3.IH" [OF c g1 [symmetric] refl g2 [symmetric] refl g3 [symmetric] refl g4]
  have f4: "currentIndex s3' = currentIndex sb + BlockStatement_count body"
    "BlockStatement_ends (tokens sb) (currentIndex sb) body" by simp_all
  from f1 f2 f3 f4 fe show ?case by (simp add: add.assoc add.commute add.left_commute)
next
  case (4 s)
  from "4.prems" obtain tok t s1 ident sa t' sb init prev where
    c: "currentToken s = Some tok" and g1: "goNext (One LetT) s = (Inr t, s1)"
    and g2: "parseIdentifier s1 = (Inr ident, sa)"
    and g3: "goNext (One Assign) sa = (Inr t', sb)"
    and g4: "parseFunctionExpression sb = (Inr init, s4')"
    and p: "previousToken s4' = Some prev"
    and vd: "vd = VariableDeclaration (tok_value tok)
               [VariableDeclarator ident init (tok_start tok) (fe_end init)]
               (tok_start tok) (enat (tok_end prev))"
    by (auto simp: parseVariableDeclaration.simps [of s] split: option.splits prod.splits sum.splits)
  note f1 = goNext_One_Inr [OF g1]
  note f2 = parseIdentifier_Inr2 [OF g2]
  note f3 = goNext_One_Inr [OF g3]
  from "4.IH" [OF c g1 [symmetric] refl g2 [symmetric] refl g3 [symmetric] refl g4]
  have f4: "currentIndex s4' = currentIndex sb + FunctionExpression_count init"
    "FunctionExpression_ends (tokens sb) (currentIndex sb) init" by simp_all
  from parseFunctionExpression_steps [of sb] g4
  have k: "tokens s4' = tokens sb" "currentIndex s4' \<le> length (tokens sb)"
    by (simp_all add: steps_def keeps_def)
  from p have prev: "prev = tokens s4' ! (currentIndex s4' - 1)"
    by (auto simp: previousToken_def split: if_splits)
  from f1 f2 f3 f4 k prev vd show ?case
    by (simp add: add.assoc add.commute add.left_commute)
next
  case (5 s)
  from "5.prems" have c: "checkCurrentTokenType (One LetT) s"
    and v: "parseVariableDeclaration s = (Inr st, s5')"
    by (auto simp: parseStatement.simps [of s] split: if_splits option.splits)
  from "5.IH" [OF c v] show ?case .
qed

lemma parseProgramLoop_ends:
  "parseProgramLoop program s = (Inr p, s') \<Longrightarrow>
     \<exists>nodes. prog_body p = prog_body program @ nodes \<and>
       Statements_ends (tokens s) (currentIndex s) nodes"
proof (induction program s arbitrary: p s' rule: parseProgramLoop.induct)
  case (1 program s)
  show ?case
  proof (cases "isEnd s")
    case True
    with "1.prems" show ?thesis by (simp add: parseProgramLoop.simps [of program s])
  next
    case False
    define next_program where "next_program node s1 =
       (if isEnd s1
        then program\<lparr>prog_body := prog_body program @ [node], prog_end := vd_end node\<rparr>
        else program\<lparr>prog_body := prog_body program @ [node]\<rparr>)" for node s1
    from False "1.prems" obtain node s1 where n: "parseStatement s = (Inr node, s1)"
      and rest: "parseProgramLoop (next_program node s1) s1 = (Inr p, s')"
      by (auto simp: parseProgramLoop.simps [of program s] next_program_def
          split: prod.splits sum.splits)
    from parseStatement_steps [of s] n have k: "tokens s1 = tokens s"
      by (simp add: steps_def keeps_def)
    from parse_ends(5) [OF n]
    have a: "currentIndex s1 = currentIndex s + Statement_count node"
      "Statement_ends (tokens s) (currentIndex s) node" by simp_all
    from "1.IH" [OF False n [symmetric] refl rest [unfolded next_program_def]]
    obtain nodes where
      b: "prog_body p = prog_body (next_program node s1) @ nodes"
      "Statements_ends (tokens s1) (currentIndex s1) nodes"
      by (auto simp: next_program_def)
    from a b k have "prog_body p = prog_body program @ (node # nodes) \<and>
        Statements_ends (tokens s) (currentIndex s) (node # nodes)"
      by (simp add: next_program_def)
    then show ?thesis by blast
  qed
qed

text \<open>
  C9. In a tree that \<open>parse\<close> returns, every statement of the body, and every node below it,
  lies over the tokens it was parsed from with the ends of \<open>Statement_ends\<close>: the end of a
  block is the end of its closing \<open>}\<close>, the end of a function expression is the end of its
  body, and the end of a declaration is the end of the last token consumed for it.
\<close>

theorem parse_ends_at_tokens:
  assumes "parse_tokens toks = Inr p"
  shows "Statements_ends toks 0 (prog_body p)"
proof -
  obtain r s' where r: "parseProgramLoop \<lparr>prog_body = [], prog_start = 0, prog_end = \<infinity>\<rparr>
      (new_Parser toks) = (r, s')"
    by (cases "parseProgramLoop \<lparr>prog_body = [], prog_start = 0, prog_end = \<infinity>\<rparr>
      (new_Parser toks)")
  with assms have "r = Inr p" by (simp add: parse_tokens_def parse_def parseProgram_def)
  with parseProgramLoop_ends
    [of "\<lparr>prog_body = [], prog_start = 0, prog_end = \<infinity>\<rparr>" "new_Parser toks" p s'] r
  show ?thesis
    by (auto simp: new_Parser_def)
qed

theorem parse_ends_at_tokens_witness:
  "parse_tokens example1_tokens = Inr example1_program \<and>
   Statements_ends example1_tokens 0 (prog_body example1_program)"
proof -
  have h: "parse_tokens example1_tokens = Inr example1_program" by code_simp
  from parse_ends_at_tokens [OF h] h show ?thesis by simp
qed

section \<open>The parser accepts the grammar\<close>

text \<open>
  On a token sequence that the grammar accepts, the parser returns a Program with one
  statement for each top-level declaration. So where \<open>parse(tokenize(source))\<close> fails on a
  source of the language, it fails because of the tokens the scanner made of it.
\<close>

lemma drop_ConsD:
  assumes "drop i xs = t # rest"
  shows "i < length xs" "xs ! i = t" "drop (Suc i) xs = rest"
proof -
  from assms show l: "i < length xs" by (cases "i < length xs") auto
  from assms l show "xs ! i = t" by (metis hd_drop_conv_nth list.sel(1))
  from assms show "drop (Suc i) xs = rest" by (metis drop_Suc tl_drop list.sel(3))
qed

lemma drop_appendD:
  assumes "drop i xs = ts @ rest"
  shows "drop (i + length ts) xs = rest" "ts \<noteq> [] \<Longrightarrow> i + length ts \<le> length xs"
proof -
  have "drop (i + length ts) xs = drop (length ts) (drop i xs)" by (simp add: add.commute)
  with assms show "drop (i + length ts) xs = rest" by simp
  from assms have "length (drop i xs) = length ts + length rest" by simp
  then show "ts \<noteq> [] \<Longrightarrow> i + length ts \<le> length xs" by (cases ts) simp_all
qed

lemma currentToken_at:
  "drop i toks = t # rest \<Longrightarrow> currentToken (state_at toks i) = Some t"
  by (auto simp: currentToken_def dest: drop_ConsD)

lemma check_at:
  "drop i toks = t # rest \<Longrightarrow>
     checkCurrentTokenType (One ty) (state_at toks i) = (tok_type t = ty)"
  by (auto simp: checkCurrentTokenType_def isEnd_def dest: drop_ConsD)

lemma goNext_at:
  "drop i toks = t # rest \<Longrightarrow> tok_type t = ty \<Longrightarrow>
     goNext (One ty) (state_at toks i) = (Inr t, state_at toks (Suc i))"
  by (auto simp: goNext_def currentToken_def dest: drop_ConsD)

lemma parseIdentifier_at:
  "drop i toks = t # rest \<Longrightarrow> tok_type t = Identifier \<Longrightarrow>
     parseIdentifier (state_at toks i) =
       (Inr (IdentifierNode (tok_value t) (tok_start t) (enat (tok_end t))),
        state_at toks (Suc i))"
  by (simp add: parseIdentifier_def currentToken_at goNext_at)

lemma parseParamLoop_at:
  "list_all (\<lambda>t. tok_type t = Identifier) ps \<Longrightarrow> tok_type rp = RightParen \<Longrightarrow>
   drop i toks = ps @ rp # rest \<Longrightarrow>
   \<exists>new. parseParamLoop params (state_at toks i) =
     (Inr (params @ new), state_at toks (i + length ps))"
proof (induction ps arbitrary: i params)
  case Nil
  then show ?case by (simp add: parseParamLoop.simps [of params "state_at toks i"] check_at)
next
  case (Cons p ps)
  from Cons.prems have d: "drop i toks = p # (ps @ rp # rest)" and p: "tok_type p = Identifier"
    and ps: "list_all (\<lambda>t. tok_type t = Identifier) ps"
    by simp_all
  from drop_ConsD(3) [OF d] have d': "drop (Suc i) toks = ps @ rp # rest" .
  define n where "n = IdentifierNode (tok_value p) (tok_start p) (enat (tok_end p))"
  from Cons.IH [OF ps Cons.prems(2) d', of "params @ [n]"]
  obtain new where
    "parseParamLoop (params @ [n]) (state_at toks (Suc i)) =
       (Inr ((params @ [n]) @ new), state_at toks (Suc i + length ps))"
    by blast
  then have "parseParamLoop params (state_at toks i) =
       (Inr (params @ (n # new)), state_at toks (i + length (p # ps)))"
    using p by (simp add: parseParamLoop.simps [of params "state_at toks i"] check_at [OF d]
        parseIdentifier_at [OF d] n_def)
  then show ?case by blast
qed

lemma parseParam_at:
  assumes "tok_type lp = LeftParen" "list_all (\<lambda>t. tok_type t = Identifier) ps"
    "tok_type rp = RightParen" "drop i toks = lp # ps @ rp # rest"
  shows "\<exists>params. parseParam (state_at toks i) =
    (Inr params, state_at toks (i + 2 + length ps))"
proof -
  from drop_ConsD(3) [OF assms(4)] have d1: "drop (Suc i) toks = ps @ rp # rest" .
  from parseParamLoop_at [OF assms(2,3) d1, of "[]"] obtain new where
    l: "parseParamLoop [] (state_at toks (Suc i)) =
      (Inr new, state_at toks (Suc (i + length ps)))"
    by auto
  from drop_appendD(1) [OF d1] have d2: "drop (Suc (i + length ps)) toks = rp # rest" by simp
  show ?thesis
    by (simp add: parseParam_def goNext_at [OF assms(4,1)] l goNext_at [OF d2 assms(3)])
qed

lemma spec_Statement_starts:
  "spec_Statement x \<Longrightarrow> \<exists>l xs. x = l # xs \<and> tok_type l = LetT"
  by (auto elim: spec_Statement.cases)

lemma parse_spec:
  "spec_Statement ts1 \<Longrightarrow>
     (\<forall>toks i rest. drop i toks = ts1 @ rest \<longrightarrow>
        (\<exists>node. parseStatement (state_at toks i) =
           (Inr node, state_at toks (i + length ts1))))"
  "spec_Statements n ts2 \<Longrightarrow>
     (\<forall>toks i rc rest body. drop i toks = ts2 @ rc # rest \<and> tok_type rc = RightCurly \<longrightarrow>
        (\<exists>nodes. length nodes = n \<and>
           parseBlockLoop body (state_at toks i) =
             (Inr (body @ nodes), state_at toks (i + length ts2)))) \<and>
     (\<forall>toks i program. drop i toks = ts2 \<longrightarrow>
        (\<exists>p. length (prog_body p) = length (prog_body program) + n \<and>
           fst (parseProgramLoop program (state_at toks i)) = Inr p))"
  "spec_FunctionExpression ts3 \<Longrightarrow>
     (\<forall>toks i rest. drop i toks = ts3 @ rest \<longrightarrow>
        (\<exists>fe. parseFunctionExpression (state_at toks i) =
           (Inr fe, state_at toks (i + length ts3))))"
  "spec_BlockStatement ts4 \<Longrightarrow>
     (\<forall>toks i rest. drop i toks = ts4 @ rest \<longrightarrow>
        (\<exists>b. parseBlockStatement (state_at toks i) =
           (Inr b, state_at toks (i + length ts4))))"
proof (induction rule:
    spec_Statement_spec_Statements_spec_FunctionExpression_spec_BlockStatement.inducts)
  case (VariableDeclaration l i a fe)
  show ?case
  proof (intro allI impI)
    fix toks k rest
    assume d: "drop k toks = (l # i # a # fe) @ rest"
    then have d0: "drop k toks = l # (i # a # fe @ rest)" by simp
    from drop_ConsD(3) [OF d0] have d1: "drop (Suc k) toks = i # (a # fe @ rest)" .
    from drop_ConsD(3) [OF d1] have d2: "drop (Suc (Suc k)) toks = a # (fe @ rest)" .
    from drop_ConsD(3) [OF d2] have d3: "drop (Suc (Suc (Suc k))) toks = fe @ rest" .
    from VariableDeclaration.IH d3 obtain init where
      init: "parseFunctionExpression (state_at toks (Suc (Suc (Suc k)))) =
        (Inr init, state_at toks (Suc (Suc (Suc k)) + length fe))" by blast
    from drop_appendD(2) [OF d] have le: "k + length (l # i # a # fe) \<le> length toks" by simp
    then have "\<exists>prev. previousToken (state_at toks (Suc (Suc (Suc k)) + length fe)) = Some prev"
      by (simp add: previousToken_def)
    then obtain prev where
      prev: "previousToken (state_at toks (Suc (Suc (Suc k)) + length fe)) = Some prev" ..
    show "\<exists>node. parseStatement (state_at toks k) =
        (Inr node, state_at toks (k + length (l # i # a # fe)))"
      using VariableDeclaration.hyps(1-3) init prev
      by (simp add: parseStatement.simps [of "state_at toks k"] check_at [OF d0]
          parseVariableDeclaration.simps [of "state_at toks k"] currentToken_at [OF d0]
          goNext_at [OF d0] parseIdentifier_at [OF d1] goNext_at [OF d2])
  qed
next
  case No_Statement
  show ?case
    by (auto simp: parseBlockLoop.simps [of _ "state_at _ _"] check_at
        parseProgramLoop.simps [of _ "state_at _ _"] isEnd_def)
next
  case (More_Statements x n xs)
  from spec_Statement_starts [OF More_Statements.hyps(1)] obtain l x' where
    x: "x = l # x'" "tok_type l = LetT" by blast
  show ?case
  proof (intro conjI allI impI)
    fix toks i rc rest body
    assume "drop i toks = (x @ xs) @ rc # rest \<and> tok_type rc = RightCurly"
    then have d: "drop i toks = x @ (xs @ rc # rest)" and rc: "tok_type rc = RightCurly"
      by simp_all
    from d x have d0: "drop i toks = l # (x' @ xs @ rc # rest)" by simp
    from More_Statements.IH(1) d obtain node where
      node: "parseStatement (state_at toks i) = (Inr node, state_at toks (i + length x))"
      by blast
    from drop_appendD(1) [OF d] have d': "drop (i + length x) toks = xs @ rc # rest" .
    from More_Statements.IH(2) d' rc obtain nodes where
      nodes: "length nodes = n" "parseBlockLoop (body @ [node]) (state_at toks (i + length x)) =
        (Inr ((body @ [node]) @ nodes), state_at toks (i + length x + length xs))" by blast
    have "length (node # nodes) = Suc n \<and>
      parseBlockLoop body (state_at toks i) =
        (Inr (body @ (node # nodes)), state_at toks (i + length (x @ xs)))"
      using node nodes x(2)
      by (simp add: parseBlockLoop.simps [of body "state_at toks i"] check_at [OF d0] add.assoc)
    then show "\<exists>nodes. length nodes = Suc n \<and>
      parseBlockLoop body (state_at toks i) =
        (Inr (body @ nodes), state_at toks (i + length (x @ xs)))" by blast
  next
    fix toks i and program :: Program
    assume d: "drop i toks = x @ xs"
    then have d1: "drop i toks = x @ (xs @ [])" by simp
    from d x have d0: "drop i toks = l # (x' @ xs)" by simp
    from More_Statements.IH(1) d1 obtain node where
      node: "parseStatement (state_at toks i) = (Inr node, state_at toks (i + length x))"
      by blast
    from drop_appendD(1) [OF d] have d': "drop (i + length x) toks = xs" .
    define program' where "program' =
       (if isEnd (state_at toks (i + length x))
        then program\<lparr>prog_body := prog_body program @ [node], prog_end := vd_end node\<rparr>
        else program\<lparr>prog_body := prog_body program @ [node]\<rparr>)"
    from More_Statements.IH(2) d' obtain p where
      p: "length (prog_body p) = length (prog_body program') + n"
        "fst (parseProgramLoop program' (state_at toks (i + length x))) = Inr p" by blast
    from drop_ConsD(1) [OF d0] have "\<not> isEnd (state_at toks i)" by (simp add: isEnd_def)
    then have "fst (parseProgramLoop program (state_at toks i)) = Inr p"
      using node p(2)
      by (simp add: parseProgramLoop.simps [of program "state_at toks i"] program'_def)
    moreover have "length (prog_body p) = length (prog_body program) + Suc n"
      using p(1) by (simp add: program'_def)
    ultimately show "\<exists>p. length (prog_body p) = length (prog_body program) + Suc n \<and>
      fst (parseProgramLoop program (state_at toks i)) = Inr p" by blast
  qed
next
  case (Anonymous f lp params rp b)
  show ?case
  proof (intro allI impI)
    fix toks i rest
    assume "drop i toks = (f # lp # params @ rp # b) @ rest"
    then have d0: "drop i toks = f # (lp # params @ rp # (b @ rest))" by simp
    from drop_ConsD(3) [OF d0] have d1: "drop (Suc i) toks = lp # params @ rp # (b @ rest)" .
    from parseParam_at [OF Anonymous.hyps(2,3,4) d1] obtain ps where
      ps: "parseParam (state_at toks (Suc i)) =
        (Inr ps, state_at toks (Suc i + 2 + length params))"
      by blast
    from d1 have "drop (Suc i) toks = (lp # params @ [rp]) @ (b @ rest)" by simp
    from drop_appendD(1) [OF this]
    have d2: "drop (Suc i + 2 + length params) toks = b @ rest" by simp
    from Anonymous.IH d2 obtain body where
      body: "parseBlockStatement (state_at toks (Suc i + 2 + length params)) =
        (Inr body, state_at toks (Suc i + 2 + length params + length b))" by blast
    show "\<exists>fe. parseFunctionExpression (state_at toks i) =
           (Inr fe, state_at toks (i + length (f # lp # params @ rp # b)))"
      using Anonymous.hyps(1,2) ps body
      by (simp add: parseFunctionExpression.simps [of "state_at toks i"]
          currentToken_at [OF d0] goNext_at [OF d0] check_at [OF d1])
  qed
next
  case (Named f n lp params rp b)
  show ?case
  proof (intro allI impI)
    fix toks i rest
    assume "drop i toks = (f # n # lp # params @ rp # b) @ rest"
    then have d0: "drop i toks = f # (n # lp # params @ rp # (b @ rest))" by simp
    from drop_ConsD(3) [OF d0]
    have d1: "drop (Suc i) toks = n # (lp # params @ rp # (b @ rest))" .
    from drop_ConsD(3) [OF d1]
    have d1': "drop (Suc (Suc i)) toks = lp # params @ rp # (b @ rest)" .
    from parseParam_at [OF Named.hyps(3,4,5) d1'] obtain ps where
      ps: "parseParam (state_at toks (Suc (Suc i))) =
        (Inr ps, state_at toks (Suc (Suc i) + 2 + length params))"
      by blast
    from d1' have "drop (Suc (Suc i)) toks = (lp # params @ [rp]) @ (b @ rest)" by simp
    from drop_appendD(1) [OF this]
    have d2: "drop (Suc (Suc i) + 2 + length params) toks = b @ rest" by simp
    from Named.IH d2 obtain body where
      body: "parseBlockStatement (state_at toks (Suc (Suc i) + 2 + length params)) =
        (Inr body, state_at toks (Suc (Suc i) + 2 + length params + length b))" by blast
    show "\<exists>fe. parseFunctionExpression (state_at toks i) =
           (Inr fe, state_at toks (i + length (f # n # lp # params @ rp # b)))"
      using Named.hyps(1,2) ps body
      by (simp add: parseFunctionExpression.simps [of "state_at toks i"]
          currentToken_at [OF d0] goNext_at [OF d0] check_at [OF d1] parseIdentifier_at [OF d1])
  qed
next
  case (Block lc n body rc)
  show ?case
  proof (intro allI impI)
    fix toks i rest
    assume "drop i toks = (lc # body @ [rc]) @ rest"
    then have d0: "drop i toks = lc # (body @ rc # rest)" by simp
    from drop_ConsD(3) [OF d0] have d1: "drop (Suc i) toks = body @ rc # rest" .
    from Block.IH d1 Block.hyps(3) obtain nodes where
      nodes: "parseBlockLoop [] (state_at toks (Suc i)) =
        (Inr ([] @ nodes), state_at toks (Suc i + length body))" by blast
    from drop_appendD(1) [OF d1] have d2: "drop (Suc (i + length body)) toks = rc # rest"
      by simp
    show "\<exists>b. parseBlockStatement (state_at toks i) =
           (Inr b, state_at toks (i + length (lc # body @ [rc])))"
      using Block.hyps(1,3) nodes
      by (simp add: parseBlockStatement.simps [of "state_at toks i"] currentToken_at [OF d0]
          goNext_at [OF d0] currentToken_at [OF d2] goNext_at [OF d2])
  qed
qed


lemma parse_accepts_grammar:
  assumes "spec_Statements n toks"
  shows "\<exists>p. parse_tokens toks = Inr p \<and> length (prog_body p) = n"
proof -
  from parse_spec(2) [OF assms]
  have "\<exists>p. length (prog_body p) =
          length (prog_body \<lparr>prog_body = [], prog_start = 0, prog_end = \<infinity>\<rparr>) + n \<and>
        fst (parseProgramLoop \<lparr>prog_body = [], prog_start = 0, prog_end = \<infinity>\<rparr>
               (state_at toks 0)) = Inr p"
    by (metis drop0)
  then show ?thesis
    by (auto simp: parse_tokens_def parse_def parseProgram_def new_Parser_def)
qed

lemma spec_example1: "spec_Statements 1 example1_tokens"
proof -
  have b: "spec_BlockStatement (drop 6 example1_tokens)"
    using Block [of "example1_tokens ! 6" 0 "[]" "example1_tokens ! 7"] No_Statement
    by (simp add: example1_tokens_def)
  have "spec_FunctionExpression (drop 3 example1_tokens)"
    using Anonymous [of "example1_tokens ! 3" "example1_tokens ! 4" "[]" "example1_tokens ! 5"
        "drop 6 example1_tokens"] b
    by (simp add: example1_tokens_def)
  then have "spec_Statement example1_tokens"
    using VariableDeclaration [of "example1_tokens ! 0" "example1_tokens ! 1"
        "example1_tokens ! 2" "drop 3 example1_tokens"]
    by (simp add: example1_tokens_def)
  from More_Statements [OF this No_Statement] show ?thesis by simp
qed

end
